theory Spec2Isabelle
  imports Complex_Main "HOL-Library.Sublist" "HOL-Library.Log_Nat"
begin

section \<open>Text, errors and the regular-expression engine\<close>

text \<open>
  A Python \<open>str\<close> is a sequence of Unicode code points, so text is a list of code
  points (natural numbers), not a list of bytes.  The Hangul literals of the source are
  written out as their code points.
\<close>

type_synonym ustring = "nat list"

datatype py_error = ValueError | TypeError | KeyError

definition ebind :: "py_error + 'a \<Rightarrow> ('a \<Rightarrow> py_error + 'b) \<Rightarrow> py_error + 'b" where
  "ebind x f = (case x of Inl e \<Rightarrow> Inl e | Inr v \<Rightarrow> f v)"

definition lookup :: "('k \<times> 'v) list \<Rightarrow> 'k \<Rightarrow> py_error + 'v" where
  \<comment> \<open>\<open>d[k]\<close> on a dict literal: KeyError when the key is missing.\<close>
  "lookup d k = (case map_of d k of None \<Rightarrow> Inl KeyError | Some v \<Rightarrow> Inr v)"

definition entry :: "'a option \<Rightarrow> py_error + 'a" where
  \<comment> \<open>An entry of a rule dict that only some document types have.\<close>
  "entry x = (case x of None \<Rightarrow> Inl KeyError | Some v \<Rightarrow> Inr v)"

subsection \<open>Character classes of Python's \<open>re\<close> on \<open>str\<close>\<close>

text \<open>
  On \<open>str\<close> patterns \<open>\d\<close> is every character of Unicode category Nd and \<open>\s\<close>
  every Unicode white-space character (tables of Unicode 14, Python 3.11).  The Nd
  characters come in runs of ten, each run counting 0 to 9, the run at 120782 being five
  such runs; \<open>int\<close> reads them with these values.
\<close>

definition decimal_blocks :: "(nat \<times> nat) list" where
  "decimal_blocks =
    [(48, 57), (1632, 1641), (1776, 1785), (1984, 1993), (2406, 2415), (2534, 2543),
     (2662, 2671), (2790, 2799), (2918, 2927), (3046, 3055), (3174, 3183), (3302, 3311),
     (3430, 3439), (3558, 3567), (3664, 3673), (3792, 3801), (3872, 3881), (4160, 4169),
     (4240, 4249), (6112, 6121), (6160, 6169), (6470, 6479), (6608, 6617), (6784, 6793),
     (6800, 6809), (6992, 7001), (7088, 7097), (7232, 7241), (7248, 7257), (42528, 42537),
     (43216, 43225), (43264, 43273), (43472, 43481), (43504, 43513), (43600, 43609),
     (44016, 44025), (65296, 65305), (66720, 66729), (68912, 68921), (69734, 69743),
     (69872, 69881), (69942, 69951), (70096, 70105), (70384, 70393), (70736, 70745),
     (70864, 70873), (71248, 71257), (71360, 71369), (71472, 71481), (71904, 71913),
     (72016, 72025), (72784, 72793), (73040, 73049), (73120, 73129), (92768, 92777),
     (92864, 92873), (93008, 93017), (120782, 120831), (123200, 123209), (123632, 123641),
     (125264, 125273), (130032, 130041)]"

definition is_decimal :: "nat \<Rightarrow> bool" where
  "is_decimal c = list_ex (\<lambda>(lo, hi). lo \<le> c \<and> c \<le> hi) decimal_blocks"

definition decimal_value :: "nat \<Rightarrow> nat" where
  "decimal_value c =
     (case filter (\<lambda>(lo, hi). lo \<le> c \<and> c \<le> hi) decimal_blocks of
        [] \<Rightarrow> 0 | (lo, hi) # _ \<Rightarrow> (c - lo) mod 10)"

definition is_space :: "nat \<Rightarrow> bool" where
  "is_space c = (c \<in> set [9, 10, 11, 12, 13, 28, 29, 30, 31, 32, 133, 160, 5760, 8192,
     8193, 8194, 8195, 8196, 8197, 8198, 8199, 8200, 8201, 8202, 8232, 8233, 8239, 8287,
     12288])"

datatype cclass =
    Lit nat              \<comment> \<open>one literal character\<close>
  | OneOf "nat list"     \<comment> \<open>\<open>[abc]\<close>\<close>
  | Range nat nat        \<comment> \<open>\<open>[a-z]\<close>\<close>
  | Digit                \<comment> \<open>\<open>\d\<close>\<close>
  | Space                \<comment> \<open>\<open>\s\<close>\<close>

fun in_class :: "cclass \<Rightarrow> nat \<Rightarrow> bool" where
  "in_class (Lit a) c = (c = a)"
| "in_class (OneOf as) c = (c \<in> set as)"
| "in_class (Range lo hi) c = (lo \<le> c \<and> c \<le> hi)"
| "in_class Digit c = is_decimal c"
| "in_class Space c = is_space c"

subsection \<open>Patterns and the backtracking matcher\<close>

text \<open>
  The fragment of \<open>re\<close> syntax that the source's patterns use.  \<open>Group k r\<close> is the
  \<open>k\<close>-th capturing group; a non-capturing group \<open>(?:r)\<close> is just \<open>r\<close>;
  \<open>StarC c\<close> is the greedy \<open>c*\<close> of a single character class and \<open>Opt r\<close> the
  greedy \<open>r?\<close>.
\<close>

datatype rx =
    Eps
  | Atom cclass
  | Seq rx rx
  | Alt rx rx
  | Opt rx
  | StarC cclass
  | Group nat rx

fun rep :: "nat \<Rightarrow> rx \<Rightarrow> rx" where
  \<comment> \<open>\<open>r{n}\<close>\<close>
  "rep 0 r = Eps"
| "rep (Suc n) r = Seq r (rep n r)"

fun seqs :: "rx list \<Rightarrow> rx" where
  "seqs [] = Eps"
| "seqs [r] = r"
| "seqs (r # rs) = Seq r (seqs rs)"

type_synonym caps = "(nat \<times> ustring) list"

text \<open>
  \<open>rmatch r s cs\<close> lists every way \<open>r\<close> can match a prefix of \<open>s\<close>, as the number of
  characters consumed and the captures, in the order in which Python's backtracking
  engine tries them: the first alternative before the second, the longer repetition
  before the shorter.  The match the engine reports at a position is the head of the list.
  \<open>rmatch_then r s ps\<close> continues with \<open>r\<close> after each of the partial matches \<open>ps\<close>.
\<close>

fun countdown :: "nat \<Rightarrow> nat list" where
  "countdown 0 = [0]"
| "countdown (Suc n) = Suc n # countdown n"

function rmatch :: "rx \<Rightarrow> ustring \<Rightarrow> caps \<Rightarrow> (nat \<times> caps) list"
  and rmatch_then :: "rx \<Rightarrow> ustring \<Rightarrow> (nat \<times> caps) list \<Rightarrow> (nat \<times> caps) list"
where
  "rmatch Eps s cs = [(0, cs)]"
| "rmatch (Atom c) s cs =
     (case s of [] \<Rightarrow> [] | x # _ \<Rightarrow> if in_class c x then [(1, cs)] else [])"
| "rmatch (Seq r1 r2) s cs = rmatch_then r2 s (rmatch r1 s cs)"
| "rmatch (Alt r1 r2) s cs = rmatch r1 s cs @ rmatch r2 s cs"
| "rmatch (Opt r) s cs = rmatch r s cs @ [(0, cs)]"
| "rmatch (StarC c) s cs = map (\<lambda>n. (n, cs)) (countdown (length (takeWhile (in_class c) s)))"
| "rmatch (Group k r) s cs = map (\<lambda>p. (fst p, (k, take (fst p) s) # snd p)) (rmatch r s cs)"
| "rmatch_then r s [] = []"
| "rmatch_then r s (p # ps) =
     map (\<lambda>q. (fst p + fst q, snd q)) (rmatch r (drop (fst p) s) (snd p)) @ rmatch_then r s ps"
  by pat_completeness auto
termination
  by (relation "inv_image (less_than <*lex*> less_than)
        (\<lambda>x. case x of Inl (r, s, cs) \<Rightarrow> (2 * size r, 0)
                     | Inr (r, s, ps) \<Rightarrow> (2 * size r + 1, length ps))") auto

fun ngroups :: "rx \<Rightarrow> nat" where
  "ngroups (Seq r1 r2) = ngroups r1 + ngroups r2"
| "ngroups (Alt r1 r2) = ngroups r1 + ngroups r2"
| "ngroups (Opt r) = ngroups r"
| "ngroups (Group k r) = Suc (ngroups r)"
| "ngroups _ = 0"

text \<open>A match object: \<open>m.group(0)\<close> and \<open>m.groups()\<close> (None for a group that took no part).\<close>

record re_match =
  group0 :: ustring
  groups :: "ustring option list"

definition match_at :: "rx \<Rightarrow> ustring \<Rightarrow> (nat \<times> re_match) option" where
  "match_at r s =
     (case rmatch r s [] of
        [] \<Rightarrow> None
      | (n, cs) # _ \<Rightarrow>
          Some (n, \<lparr>group0 = take n s, groups = map (map_of cs) [1 ..< Suc (ngroups r)]\<rparr>))"

fun search :: "rx \<Rightarrow> ustring \<Rightarrow> re_match option" where
  \<comment> \<open>\<open>re.search\<close>: the match at the leftmost position that has one.\<close>
  "search r [] = map_option snd (match_at r [])"
| "search r (x # xs) =
     (case match_at r (x # xs) of Some (n, m) \<Rightarrow> Some m | None \<Rightarrow> search r xs)"

function finditer :: "rx \<Rightarrow> ustring \<Rightarrow> re_match list" where
  \<comment> \<open>\<open>re.finditer\<close>: leftmost matches, left to right, the scan resuming where the
      previous match ended (one character further after an empty match).\<close>
  "finditer r [] = (case match_at r [] of None \<Rightarrow> [] | Some (n, m) \<Rightarrow> [m])"
| "finditer r (x # xs) =
     (case match_at r (x # xs) of
        None \<Rightarrow> finditer r xs
      | Some (n, m) \<Rightarrow> m # finditer r (drop (n - 1) xs))"
  by pat_completeness auto
termination
  by (relation "measure (\<lambda>(r, s). length s)") auto

section \<open>Calendar dates and floating-point numbers\<close>

text \<open>
  \<open>datetime.date\<close>: the constructor raises ValueError unless the triple is a date of the
  proleptic Gregorian calendar with a year from 1 to 9999; dates compare by year, then
  month, then day.
\<close>

record date =
  year :: int
  month :: int
  day :: int

definition is_leap :: "int \<Rightarrow> bool" where
  "is_leap y = (y mod 4 = 0 \<and> (y mod 100 \<noteq> 0 \<or> y mod 400 = 0))"

definition days_in_month :: "int \<Rightarrow> int \<Rightarrow> int" where
  "days_in_month y m =
     (if m = 2 then (if is_leap y then 29 else 28)
      else if m = 4 \<or> m = 6 \<or> m = 9 \<or> m = 11 then 30 else 31)"

definition valid_date :: "date \<Rightarrow> bool" where
  "valid_date d = (1 \<le> year d \<and> year d \<le> 9999 \<and> 1 \<le> month d \<and> month d \<le> 12 \<and>
                   1 \<le> day d \<and> day d \<le> days_in_month (year d) (month d))"

definition mk_date :: "int \<Rightarrow> int \<Rightarrow> int \<Rightarrow> py_error + date" where
  \<comment> \<open>\<open>dt.date(y, m, d)\<close>\<close>
  "mk_date y m d =
     (let r = \<lparr>year = y, month = m, day = d\<rparr> in if valid_date r then Inr r else Inl ValueError)"

definition date_le :: "date \<Rightarrow> date \<Rightarrow> bool" where
  "date_le a b = (year a < year b \<or> (year a = year b \<and>
                   (month a < month b \<or> (month a = month b \<and> day a \<le> day b))))"

definition date_lt :: "date \<Rightarrow> date \<Rightarrow> bool" where
  "date_lt a b = (year a < year b \<or> (year a = year b \<and>
                   (month a < month b \<or> (month a = month b \<and> day a < day b))))"

fun py_max :: "date list \<Rightarrow> py_error + date" where
  \<comment> \<open>\<open>max(xs)\<close>: ValueError on an empty list, otherwise the first greatest element.\<close>
  "py_max [] = Inl ValueError"
| "py_max (x # xs) = Inr (foldl (\<lambda>a b. if date_lt a b then b else a) x xs)"

text \<open>
  A Python float is an IEEE 754 double.  Its value is kept as a rational number, and
  every operation rounds the exact result to the nearest double, ties to the even
  mantissa (53 bits).  Overflow and subnormal numbers are left out: the numbers of this
  program are zero or lie between \<open>2\<^sup>-\<^sup>5\<close> and \<open>2\<^sup>1\<^sup>7\<close> in magnitude.
\<close>

type_synonym pyfloat = rat

definition float_exponent :: "rat \<Rightarrow> int" where
  \<comment> \<open>for \<open>0 < x\<close>: the \<open>e\<close> with \<open>2\<^sup>e \<le> x < 2\<^sup>e\<^sup>+\<^sup>1\<close>\<close>
  "float_exponent x = (if 1 \<le> x then bitlen \<lfloor>x\<rfloor> - 1 else - bitlen (\<lceil>1 / x\<rceil> - 1))"

definition pow2 :: "int \<Rightarrow> rat" where
  "pow2 e = (if 0 \<le> e then 2 ^ nat e else 1 / 2 ^ nat (- e))"

definition round_half_even :: "rat \<Rightarrow> int" where
  "round_half_even q =
     (let f = \<lfloor>q\<rfloor>; r = q - of_int f
      in if r < 1 / 2 then f else if 1 / 2 < r then f + 1 else if even f then f else f + 1)"

definition round_double :: "rat \<Rightarrow> pyfloat" where
  "round_double x =
     (if x = 0 then 0
      else let a = \<bar>x\<bar>; u = pow2 (float_exponent a - 52)
           in sgn x * of_int (round_half_even (a / u)) * u)"

definition float_of_int :: "int \<Rightarrow> pyfloat" where
  "float_of_int n = round_double (of_int n)"

definition fadd :: "pyfloat \<Rightarrow> pyfloat \<Rightarrow> pyfloat" where
  "fadd a b = round_double (a + b)"

definition fdiv :: "pyfloat \<Rightarrow> pyfloat \<Rightarrow> pyfloat" where
  \<comment> \<open>the only divisor of the program is the literal \<open>30.0\<close>\<close>
  "fdiv a b = round_double (a / b)"

definition month_diff :: "date \<Rightarrow> date \<Rightarrow> pyfloat" where
  "month_diff d1 d2 =
     fadd (float_of_int ((year d1 - year d2) * 12 + (month d1 - month d2)))
          (fdiv (float_of_int (day d1 - day d2)) 30)"

subsection \<open>Conversions between numbers and text\<close>

definition digits_value :: "ustring \<Rightarrow> int" where
  "digits_value s = foldl (\<lambda>a c. 10 * a + int (decimal_value c)) 0 s"

definition py_int :: "ustring option \<Rightarrow> py_error + int" where
  \<comment> \<open>\<open>int(s)\<close> for a captured group: TypeError on None; a non-empty run of decimal
      digits is read in base ten.  (Signs, white space and underscores, which \<open>int\<close>
      also reads, are answered with ValueError here: no group of the date patterns
      holds anything but digits.)\<close>
  "py_int g =
     (case g of
        None \<Rightarrow> Inl TypeError
      | Some s \<Rightarrow>
          if s \<noteq> [] \<and> list_all is_decimal s then Inr (digits_value s) else Inl ValueError)"

definition py_len :: "ustring option \<Rightarrow> py_error + nat" where
  "py_len g = (case g of None \<Rightarrow> Inl TypeError | Some s \<Rightarrow> Inr (length s))"

function str_nat :: "nat \<Rightarrow> ustring" where
  "str_nat n = (if n < 10 then [48 + n] else str_nat (n div 10) @ [48 + n mod 10])"
  by pat_completeness auto
termination
  by (relation "measure id") auto

definition zfill :: "nat \<Rightarrow> ustring \<Rightarrow> ustring" where
  "zfill k s = replicate (k - length s) 48 @ s"

definition str_date :: "date \<Rightarrow> ustring" where
  \<comment> \<open>\<open>str(d)\<close> is the ISO form \<open>YYYY-MM-DD\<close>\<close>
  "str_date d = zfill 4 (str_nat (nat (year d))) @ [45] @ zfill 2 (str_nat (nat (month d)))
                @ [45] @ zfill 2 (str_nat (nat (day d)))"

definition fmt_1f :: "pyfloat \<Rightarrow> ustring" where
  \<comment> \<open>the format \<open>.1f\<close>: the exact value rounded to one decimal, ties to even\<close>
  "fmt_1f v =
     (let r = nat (round_half_even (\<bar>v\<bar> * 10))
      in (if v < 0 then [45] else []) @ str_nat (r div 10) @ [46] @ str_nat (r mod 10))"

definition py_in :: "ustring \<Rightarrow> ustring \<Rightarrow> bool" where
  \<comment> \<open>\<open>kw in text\<close> on strings\<close>
  "py_in kw text = list_ex (prefix kw) (suffixes text)"

section \<open>Rules and date patterns\<close>

text \<open>
  One entry of \<open>RULES\<close>.  Only \<open>fields_required\<close> is in both entries of the source; the
  other keys are present in one entry each, and reading an absent one is a KeyError.
\<close>

record rule_set =
  fields_required :: "ustring list"
  patterns :: "(ustring \<times> rx) list option"
  summer_months :: "int list option"
  summer_max_months :: "int option"
  winter_max_months :: "int option"

definition business_registration :: ustring where
  "business_registration = [49324, 50629, 51088, 46321, 47197, 51613]"

definition disinfection_certificate :: ustring where
  "disinfection_certificate = [49548, 46021, 54596, 51613]"

definition registration_number :: ustring where
  "registration_number = [49324, 50629, 51088, 46321, 47197, 48264, 54840]"

definition registration_number_pattern :: rx where
  \<comment> \<open>\<open>(?:(?:\d{3}-\d{2}-\d{5})|(?:\d{10}))\<close>\<close>
  "registration_number_pattern =
     Alt (seqs [rep 3 (Atom Digit), Atom (Lit 45), rep 2 (Atom Digit), Atom (Lit 45),
                rep 5 (Atom Digit)])
         (rep 10 (Atom Digit))"

definition business_rules :: rule_set where
  "business_rules =
     \<lparr>fields_required =
        [[49345, 54840], [45824, 54364, 51088], registration_number,
         [49324, 50629, 51109], [49548, 51116, 51648]],
      patterns = Some [(registration_number, registration_number_pattern)],
      summer_months = None, summer_max_months = None, winter_max_months = None\<rparr>"

definition disinfection_rules :: rule_set where
  "disinfection_rules =
     \<lparr>fields_required =
        [[49548, 46021], [45824, 49345], [49884, 49444], [44592, 44036],
         [49892, 49884, 51088]],
      patterns = None,
      summer_months = Some [4, 5, 6, 7, 8, 9],
      summer_max_months = Some 2, winter_max_months = Some 3\<rparr>"

definition RULES :: "(ustring \<times> rule_set) list" where
  "RULES = [(business_registration, business_rules),
            (disinfection_certificate, disinfection_rules)]"

definition sep :: rx where
  \<comment> \<open>\<open>[./-]\<close>\<close>
  "sep = Atom (OneOf [46, 47, 45])"

definition year_20xx :: rx where
  \<comment> \<open>\<open>20\d{2}\<close>\<close>
  "year_20xx = seqs [Atom (Lit 50), Atom (Lit 48), rep 2 (Atom Digit)]"

definition month_2d :: rx where
  \<comment> \<open>\<open>0[1-9]|1[0-2]\<close>\<close>
  "month_2d = Alt (Seq (Atom (Lit 48)) (Atom (Range 49 57)))
                  (Seq (Atom (Lit 49)) (Atom (Range 48 50)))"

definition day_2d :: rx where
  \<comment> \<open>\<open>0[1-9]|[12]\d|3[01]\<close>\<close>
  "day_2d = Alt (Seq (Atom (Lit 48)) (Atom (Range 49 57)))
           (Alt (Seq (Atom (OneOf [49, 50])) (Atom Digit))
                (Seq (Atom (Lit 51)) (Atom (OneOf [48, 49]))))"

definition year_mark :: ustring where "year_mark = [45380]"
definition month_mark :: ustring where "month_mark = [50900]"
definition day_mark :: ustring where "day_mark = [51068]"

definition pattern_ymd :: rx where
  "pattern_ymd = seqs [Group 1 year_20xx, sep, Group 2 month_2d, sep, Group 3 day_2d]"

definition pattern_mdy :: rx where
  "pattern_mdy = seqs [Group 1 month_2d, sep, Group 2 day_2d, sep, Group 3 year_20xx]"

definition pattern_long :: rx where
  \<comment> \<open>\<open>(20\d{2})\s*Y\s*(1[0-2]|0?\d)\s*M\s*(3[01]|[12]?\d)\s*D\<close> with the Hangul
      year, month and day marks for Y, M and D\<close>
  "pattern_long =
     seqs [Group 1 year_20xx, StarC Space, Atom (Lit 45380), StarC Space,
           Group 2 (Alt (Seq (Atom (Lit 49)) (Atom (Range 48 50)))
                        (Seq (Opt (Atom (Lit 48))) (Atom Digit))),
           StarC Space, Atom (Lit 50900), StarC Space,
           Group 3 (Alt (Seq (Atom (Lit 51)) (Atom (OneOf [48, 49])))
                        (Seq (Opt (Atom (OneOf [49, 50]))) (Atom Digit))),
           StarC Space, Atom (Lit 51068)]"

definition DATE_PATTERNS :: "rx list" where
  "DATE_PATTERNS = [pattern_ymd, pattern_mdy, pattern_long]"

section \<open>Date extraction\<close>

definition ymd :: "ustring option \<Rightarrow> ustring option \<Rightarrow> ustring option \<Rightarrow> py_error + date" where
  \<comment> \<open>\<open>y, mth, d = int(a), int(b), int(c)\<close> followed by \<open>dt.date(y, mth, d)\<close>\<close>
  "ymd a b c =
     ebind (py_int a) (\<lambda>y. ebind (py_int b) (\<lambda>mth. ebind (py_int c) (\<lambda>d. mk_date y mth d)))"

definition date_of_match :: "re_match \<Rightarrow> py_error + date option" where
  \<comment> \<open>the body of the \<open>try\<close>: the date to append, if any, or the exception raised\<close>
  "date_of_match m =
     (let g = groups m in
      if length g = 3 then
        map_sum id Some
          (if py_in year_mark (group0 m) then ymd (g ! 0) (g ! 1) (g ! 2)
           else ebind (py_len (g ! 0)) (\<lambda>n.
                  if n = 4 then ymd (g ! 0) (g ! 1) (g ! 2) else ymd (g ! 2) (g ! 0) (g ! 1)))
      else Inr None)"

definition dates_of_match :: "re_match \<Rightarrow> date list" where
  \<comment> \<open>one round of the inner loop: \<open>except Exception: continue\<close> drops the match\<close>
  "dates_of_match m =
     (case date_of_match m of Inl e \<Rightarrow> [] | Inr None \<Rightarrow> [] | Inr (Some d) \<Rightarrow> [d])"

definition dates_in :: "rx \<Rightarrow> ustring \<Rightarrow> date list" where
  \<comment> \<open>the inner loop \<open>for m in re.finditer(p, text)\<close>\<close>
  "dates_in p text = concat (map dates_of_match (finditer p text))"

definition find_dates :: "ustring \<Rightarrow> date list" where
  "find_dates text = concat (map (\<lambda>p. dates_in p text) DATE_PATTERNS)"

section \<open>Checks\<close>

record CheckResult =
  name :: ustring
  passed :: bool
  detail :: ustring

definition keyword_label :: ustring where
  "keyword_label = [54596, 49688, 54637, 47785, 32, 54252, 54632, 32, 50668, 48512, 58, 32]"

definition present_word :: ustring where "present_word = [51316, 51116]"
definition absent_word :: ustring where "absent_word = [48512, 51116]"

definition detected_label :: ustring where
  "detected_label = [44048, 51648, 44050, 58, 32]"

definition format_name :: ustring where
  "format_name = [49324, 50629, 51088, 46321, 47197, 48264, 54840, 32, 54805, 49885]"

definition date_found_name :: ustring where
  "date_found_name = [49548, 46021, 51068, 40, 52572, 49888, 32, 44284, 44144, 51068,
                      51088, 41, 32, 52628, 52636]"

definition compliance_name :: ustring where
  "compliance_name = [49548, 46021, 51452, 44592, 32, 52649, 51313, 32, 50668, 48512]"

definition future_name :: ustring where
  "future_name = [48120, 47000, 32, 45216, 51676, 32, 46321, 47197, 32, 50668, 48512]"

definition summer_label :: ustring where
  "summer_label = [54616, 51208, 44592, 40, 50, 44060, 50900, 41]"

definition winter_label :: ustring where
  "winter_label = [46041, 51208, 44592, 40, 51, 44060, 50900, 41]"

definition keyword_check :: "ustring \<Rightarrow> ustring \<Rightarrow> CheckResult" where
  \<comment> \<open>one round of the loop over \<open>fields_required\<close>, the same in both checkers\<close>
  "keyword_check text kw =
     (let found = py_in kw text
      in \<lparr>name = keyword_label @ kw, passed = found,
          detail = [39] @ kw @ [39, 32] @ (if found then present_word else absent_word)\<rparr>)"

definition check_business_registration :: "ustring \<Rightarrow> py_error + CheckResult list" where
  "check_business_registration text =
     ebind (lookup RULES business_registration) (\<lambda>rs.
     let results = map (keyword_check text) (fields_required rs) in
     ebind (lookup RULES business_registration) (\<lambda>rs'.
     ebind (entry (patterns rs')) (\<lambda>ps.
     ebind (lookup ps registration_number) (\<lambda>patt.
     let m = search patt text in
     Inr (results @
          [\<lparr>name = format_name, passed = (m \<noteq> None),
            detail = detected_label @ (case m of Some mm \<Rightarrow> group0 mm | None \<Rightarrow> [45])\<rparr>])))))"

text \<open>
  The source reads the clock with \<open>dt.date.today()\<close> at each use; the date it returns
  is the parameter \<open>today\<close> here, one value for the whole call.
\<close>

definition latest_of :: "date \<Rightarrow> ustring \<Rightarrow> py_error + date option" where
  \<comment> \<open>\<open>max(all_dates) if all_dates else None\<close> over the dates not after today\<close>
  "latest_of today text =
     (let all_dates = filter (\<lambda>d. date_le d today) (find_dates text)
      in if all_dates \<noteq> [] then map_sum id Some (py_max all_dates) else Inr None)"

definition compliance_check :: "date \<Rightarrow> date \<Rightarrow> py_error + CheckResult" where
  \<comment> \<open>the body of \<open>if latest:\<close>\<close>
  "compliance_check today latest =
     ebind (lookup RULES disinfection_certificate) (\<lambda>rs.
     ebind (entry (summer_months rs)) (\<lambda>summer.
     ebind (if month latest \<in> set summer then entry (summer_max_months rs)
            else entry (winter_max_months rs)) (\<lambda>max_months.
     let elapsed = month_diff today latest;
         ok = (elapsed \<le> fadd (float_of_int max_months) (round_double (1 / 10)));
         season = (if month latest \<in> set summer then summer_label else winter_label)
     in Inr \<lparr>name = compliance_name, passed = ok,
             detail = [54032, 51221, 44592, 51456, 58, 32] @ season @
                      [44, 32, 44221, 44284, 58, 32] @ fmt_1f elapsed @ [44060, 50900]\<rparr>)))"

definition future_check :: "date \<Rightarrow> ustring \<Rightarrow> CheckResult" where
  "future_check today text =
     (let has_future = list_ex (\<lambda>d. date_lt today d) (find_dates text)
      in \<lparr>name = future_name, passed = (\<not> has_future),
          detail = (if has_future
                    then [48120, 47000, 32, 45216, 51676, 32, 48156, 44204, 46120]
                    else [48120, 48156, 44204])\<rparr>)"

definition check_disinfection_certificate :: "date \<Rightarrow> ustring \<Rightarrow> py_error + CheckResult list"
  where
  "check_disinfection_certificate today text =
     ebind (lookup RULES disinfection_certificate) (\<lambda>rs.
     let results = map (keyword_check text) (fields_required rs) in
     ebind (latest_of today text) (\<lambda>latest.
     let results = results @
           [\<lparr>name = date_found_name, passed = (latest \<noteq> None),
             detail = detected_label @
                      (case latest of None \<Rightarrow> [78, 111, 110, 101] | Some d \<Rightarrow> str_date d)\<rparr>] in
     ebind (case latest of
              None \<Rightarrow> Inr results
            | Some l \<Rightarrow> ebind (compliance_check today l) (\<lambda>c. Inr (results @ [c]))) (\<lambda>results.
     Inr (results @ [future_check today text]))))"

definition DOC_CHECKERS :: "date \<Rightarrow> (ustring \<times> (ustring \<Rightarrow> py_error + CheckResult list)) list"
  where
  "DOC_CHECKERS today =
     [(business_registration, check_business_registration),
      (disinfection_certificate, check_disinfection_certificate today)]"

definition dispatch :: "date \<Rightarrow> ustring \<Rightarrow> py_error + (ustring \<Rightarrow> py_error + CheckResult list)"
  where
  \<comment> \<open>the subscript \<open>DOC_CHECKERS[doc_type]\<close> of the caller\<close>
  "dispatch today doc_type = lookup (DOC_CHECKERS today) doc_type"

section \<open>What the patterns accept\<close>

text \<open>
  The set of strings a pattern matches in full, used to say which substrings of a text
  the engine can report.
\<close>

fun lang :: "rx \<Rightarrow> ustring set" where
  "lang Eps = {[]}"
| "lang (Atom c) = {w. \<exists>x. w = [x] \<and> in_class c x}"
| "lang (Seq r1 r2) = {w. \<exists>u v. w = u @ v \<and> u \<in> lang r1 \<and> v \<in> lang r2}"
| "lang (Alt r1 r2) = lang r1 \<union> lang r2"
| "lang (Opt r) = insert [] (lang r)"
| "lang (StarC c) = {w. list_all (in_class c) w}"
| "lang (Group k r) = lang r"

text \<open>The two written forms of a registration number: \<open>DDD-DD-DDDDD\<close> and ten digits.\<close>

definition hyphenated_number :: "ustring \<Rightarrow> bool" where
  "hyphenated_number w =
     (length w = 12 \<and> list_all is_decimal (take 3 w) \<and> w ! 3 = 45 \<and>
      list_all is_decimal (take 2 (drop 4 w)) \<and> w ! 6 = 45 \<and> list_all is_decimal (drop 7 w))"

definition ten_digits :: "ustring \<Rightarrow> bool" where
  "ten_digits w = (length w = 10 \<and> list_all is_decimal w)"

text \<open>
  The numeric form \<open>YYYY sep MM sep DD\<close>: a separator is one of \<open>.\<close>, \<open>/\<close> and \<open>-\<close>,
  the month is written 01 to 12 and the day 01 to 31.  \<open>numeric_form\<close> takes any four
  digits for the year, \<open>numeric_form_20\<close> asks for a year written 20 and two digits.
\<close>

definition is_sep :: "nat \<Rightarrow> bool" where
  "is_sep c = (c = 46 \<or> c = 47 \<or> c = 45)"

definition month_form :: "nat \<Rightarrow> nat \<Rightarrow> bool" where
  "month_form a b = ((a = 48 \<and> 49 \<le> b \<and> b \<le> 57) \<or> (a = 49 \<and> 48 \<le> b \<and> b \<le> 50))"

definition day_form :: "nat \<Rightarrow> nat \<Rightarrow> bool" where
  "day_form a b = ((a = 48 \<and> 49 \<le> b \<and> b \<le> 57) \<or> ((a = 49 \<or> a = 50) \<and> is_decimal b) \<or>
                   (a = 51 \<and> (b = 48 \<or> b = 49)))"

definition numeric_form :: "ustring \<Rightarrow> bool" where
  "numeric_form w =
     (length w = 10 \<and> list_all is_decimal (take 4 w) \<and> is_sep (w ! 4) \<and>
      month_form (w ! 5) (w ! 6) \<and> is_sep (w ! 7) \<and> day_form (w ! 8) (w ! 9))"

definition numeric_form_20 :: "ustring \<Rightarrow> bool" where
  "numeric_form_20 w = (numeric_form w \<and> w ! 0 = 50 \<and> w ! 1 = 48)"

definition date_written :: "ustring \<Rightarrow> py_error + date" where
  \<comment> \<open>the date that a string of the numeric form writes\<close>
  "date_written w =
     mk_date (digits_value (take 4 w)) (digits_value (take 2 (drop 5 w)))
             (digits_value (drop 8 w))"

section \<open>Basic facts about the model\<close>

lemma ebind_Inr [simp]: "ebind (Inr v) f = f v"
  by (simp add: ebind_def)

lemma ebind_Inl [simp]: "ebind (Inl e) f = Inl e"
  by (simp add: ebind_def)

lemma lookup_business: "lookup RULES business_registration = Inr business_rules"
  by (simp add: lookup_def RULES_def business_registration_def disinfection_certificate_def)

lemma lookup_disinfection: "lookup RULES disinfection_certificate = Inr disinfection_rules"
  by (simp add: lookup_def RULES_def business_registration_def disinfection_certificate_def)

lemma lookup_pattern:
  "lookup [(registration_number, registration_number_pattern)] registration_number =
     Inr registration_number_pattern"
  by (simp add: lookup_def)

lemma check_business_registration_eq:
  "check_business_registration text =
     Inr (map (keyword_check text) (fields_required business_rules) @
          [\<lparr>name = format_name, passed = (search registration_number_pattern text \<noteq> None),
            detail = detected_label @
              (case search registration_number_pattern text of
                 Some mm \<Rightarrow> group0 mm | None \<Rightarrow> [45])\<rparr>])"
proof -
  have p: "patterns business_rules = Some [(registration_number, registration_number_pattern)]"
    by (simp add: business_rules_def)
  show ?thesis
    unfolding check_business_registration_def lookup_business
    by (simp add: p entry_def lookup_pattern Let_def)
qed

lemma date_lt_iff: "date_lt a b \<longleftrightarrow> \<not> date_le b a"
  by (auto simp: date_lt_def date_le_def)

lemma date_le_refl: "date_le a a"
  by (simp add: date_le_def)

lemma date_le_trans: "date_le a b \<Longrightarrow> date_le b c \<Longrightarrow> date_le a c"
  by (auto simp: date_le_def)

lemma date_le_total: "date_le a b \<or> date_le b a"
  by (auto simp: date_le_def)

lemma date_le_antisym: "date_le a b \<Longrightarrow> date_le b a \<Longrightarrow> a = (b::date)"
  by (auto simp: date_le_def)

lemma foldl_max_mem:
  "foldl (\<lambda>a b. if date_lt a b then b else a) x xs \<in> set (x # xs)"
  by (induction xs arbitrary: x) auto

lemma foldl_max_upper:
  "d \<in> set (x # xs) \<Longrightarrow> date_le d (foldl (\<lambda>a b. if date_lt a b then b else a) x xs)"
proof (induction xs arbitrary: x d)
  case Nil
  then show ?case by (simp add: date_le_refl)
next
  case (Cons y ys)
  let ?x' = "if date_lt x y then y else x"
  have step: "date_le x ?x'" "date_le y ?x'"
    using date_le_total [of x y] by (auto simp: date_lt_iff date_le_refl)
  from Cons.prems have "d = x \<or> d = y \<or> d \<in> set ys" by auto
  then show ?case
  proof (elim disjE)
    assume "d = x"
    with step(1) Cons.IH [of ?x' ?x'] show ?thesis
      by (auto intro: date_le_trans)
  next
    assume "d = y"
    with step(2) Cons.IH [of ?x' ?x'] show ?thesis
      by (auto intro: date_le_trans)
  next
    assume "d \<in> set ys"
    with Cons.IH [of d ?x'] show ?thesis by simp
  qed
qed

lemma latest_of_none:
  assumes "\<forall>d\<in>set (find_dates text). \<not> date_le d today"
  shows "latest_of today text = Inr None"
proof -
  from assms have "filter (\<lambda>d. date_le d today) (find_dates text) = []"
    by (simp add: filter_empty_conv)
  then show ?thesis by (simp add: latest_of_def)
qed

lemma latest_of_some:
  assumes "l \<in> set (find_dates text)" and "date_le l today"
    and "\<forall>d\<in>set (find_dates text). date_le d today \<longrightarrow> date_le d l"
  shows "latest_of today text = Inr (Some l)"
proof -
  let ?ps = "filter (\<lambda>d. date_le d today) (find_dates text)"
  from assms(1,2) have mem: "l \<in> set ?ps" by simp
  then obtain x xs where ps: "?ps = x # xs" by (cases ?ps) auto
  let ?m = "foldl (\<lambda>a b. if date_lt a b then b else a) x xs"
  have "?m \<in> set ?ps" using foldl_max_mem [of x xs] ps by simp
  then have "date_le ?m l" using assms(3) by simp
  moreover have "date_le l ?m" using foldl_max_upper [of l x xs] mem ps by simp
  ultimately have "?m = l" by (rule date_le_antisym)
  then show ?thesis using ps by (simp add: latest_of_def)
qed

lemma latest_of_total:
  "\<exists>l. latest_of today text = Inr l \<and>
       (case l of
          None \<Rightarrow> \<forall>d\<in>set (find_dates text). \<not> date_le d today
        | Some m \<Rightarrow> m \<in> set (find_dates text) \<and> date_le m today \<and>
                    (\<forall>d\<in>set (find_dates text). date_le d today \<longrightarrow> date_le d m))"
proof (cases "filter (\<lambda>d. date_le d today) (find_dates text)")
  case Nil
  then show ?thesis by (simp add: latest_of_def filter_empty_conv)
next
  case (Cons x xs)
  let ?m = "foldl (\<lambda>a b. if date_lt a b then b else a) x xs"
  have m: "?m \<in> set (filter (\<lambda>d. date_le d today) (find_dates text))"
    using foldl_max_mem [of x xs] Cons by simp
  then have m2: "?m \<in> set (find_dates text)" "date_le ?m today" by simp_all
  have ub: "\<forall>d\<in>set (find_dates text). date_le d today \<longrightarrow> date_le d ?m"
  proof (intro ballI impI)
    fix d assume "d \<in> set (find_dates text)" "date_le d today"
    then have "d \<in> set (x # xs)" using Cons [symmetric] by simp
    then show "date_le d ?m" by (rule foldl_max_upper)
  qed
  have "latest_of today text = Inr (Some ?m)" using Cons by (simp add: latest_of_def)
  with m2 ub show ?thesis by simp
qed

lemma compliance_check_eq:
  "\<exists>c. compliance_check today l = Inr c \<and> name c = compliance_name \<and>
       passed c = (month_diff today l
                     \<le> fadd (float_of_int (if month l \<in> {4, 5, 6, 7, 8, 9} then 2 else 3))
                             (round_double (1 / 10)))"
proof -
  have r: "summer_months disinfection_rules = Some [4, 5, 6, 7, 8, 9]"
    "summer_max_months disinfection_rules = Some 2"
    "winter_max_months disinfection_rules = Some 3"
    by (simp_all add: disinfection_rules_def)
  show ?thesis
    unfolding compliance_check_def lookup_disinfection
    by (simp add: r entry_def Let_def)
qed

lemma check_disinfection_shape:
  assumes "latest_of today text = Inr l"
  shows "check_disinfection_certificate today text =
     Inr (map (keyword_check text) (fields_required (disinfection_rules)) @
          [\<lparr>name = date_found_name, passed = (l \<noteq> None),
            detail = detected_label @
                     (case l of None \<Rightarrow> [78, 111, 110, 101] | Some d \<Rightarrow> str_date d)\<rparr>] @
          (case l of None \<Rightarrow> [] | Some d \<Rightarrow> [projr (compliance_check today d)]) @
          [future_check today text])"
proof (cases l)
  case None
  with assms show ?thesis
    by (simp add: check_disinfection_certificate_def lookup_disinfection Let_def)
next
  case (Some d)
  obtain c where "compliance_check today d = Inr c"
    using compliance_check_eq [of today d] by blast
  with Some assms show ?thesis
    by (simp add: check_disinfection_certificate_def lookup_disinfection Let_def)
qed

subsection \<open>Substring test\<close>

lemma py_in_iff: "py_in kw text \<longleftrightarrow> (\<exists>pre post. text = pre @ kw @ post)"
proof
  assume "py_in kw text"
  then obtain s where "suffix s text" "prefix kw s"
    by (auto simp: py_in_def list_ex_iff in_set_suffixes)
  then show "\<exists>pre post. text = pre @ kw @ post"
    by (auto simp: suffix_def prefix_def)
next
  assume "\<exists>pre post. text = pre @ kw @ post"
  then obtain pre post where "text = pre @ kw @ post" by blast
  then have "suffix (kw @ post) text" "prefix kw (kw @ post)"
    by (auto simp: suffix_def)
  then show "py_in kw text"
    unfolding py_in_def list_ex_iff in_set_suffixes [symmetric] by blast
qed

lemma keyword_check_simps:
  "name (keyword_check text kw) = keyword_label @ kw"
  "passed (keyword_check text kw) = (\<exists>pre post. text = pre @ kw @ post)"
  by (simp_all add: keyword_check_def Let_def py_in_iff)

lemma fields_nonempty:
  "kw \<in> set (fields_required business_rules) \<Longrightarrow> kw \<noteq> []"
  "kw \<in> set (fields_required disinfection_rules) \<Longrightarrow> kw \<noteq> []"
  by (auto simp: business_rules_def disinfection_rules_def registration_number_def)

lemma length_fields:
  "length (fields_required business_rules) = 5"
  "length (fields_required disinfection_rules) = 5"
  by (simp_all add: business_rules_def disinfection_rules_def)

lemma doc_checkers_cases:
  assumes "(key, chk) \<in> set (DOC_CHECKERS today)" and "lookup RULES key = Inr rule"
  shows "(chk = check_business_registration \<and> rule = business_rules) \<or>
         (chk = check_disinfection_certificate today \<and> rule = disinfection_rules)"
  using assms lookup_business lookup_disinfection
  by (auto simp: DOC_CHECKERS_def)

lemma check_disinfection_prefix:
  "\<exists>rest. check_disinfection_certificate today text =
     Inr (map (keyword_check text) (fields_required disinfection_rules) @ rest)"
proof -
  obtain l where "latest_of today text = Inr l"
    using latest_of_total [of today "text"] by blast
  then show ?thesis by (simp add: check_disinfection_shape)
qed

section \<open>Keyword checks\<close>

text \<open>
  Claim C2.  For either document type, the check of the \<open>i\<close>-th required keyword is
  the \<open>i\<close>-th result, and it passes exactly when the keyword occurs in the text as a
  literal substring: the text is some prefix, then the keyword, code point for code
  point, then some suffix.  On the empty text no keyword check passes.
\<close>
theorem keyword_checks_substring:
  assumes "(key, chk) \<in> set (DOC_CHECKERS today)" and "lookup RULES key = Inr rule"
    and "i < length (fields_required rule)"
  shows "\<exists>rs. chk text = Inr rs \<and> i < length rs \<and>
           name (rs ! i) = keyword_label @ fields_required rule ! i \<and>
           passed (rs ! i) = (\<exists>pre post. text = pre @ fields_required rule ! i @ post) \<and>
           (text = [] \<longrightarrow> \<not> passed (rs ! i))"
proof -
  have "\<exists>rest. chk text = Inr (map (keyword_check text) (fields_required rule) @ rest)"
    using doc_checkers_cases [OF assms(1,2)] check_disinfection_prefix [of today "text"]
    by (auto simp: check_business_registration_eq)
  then obtain rest where
    rs: "chk text = Inr (map (keyword_check text) (fields_required rule) @ rest)" by blast
  have "fields_required rule ! i \<in> set (fields_required rule)"
    using assms(3) by simp
  then have ne: "fields_required rule ! i \<noteq> []"
    using doc_checkers_cases [OF assms(1,2)] fields_nonempty by blast
  show ?thesis
    using rs assms(3) ne by (simp add: nth_append keyword_check_simps)
qed

theorem keyword_checks_substring_witness:
  "(business_registration, check_business_registration)
     \<in> set (DOC_CHECKERS \<lparr>year = 2024, month = 6, day = 15\<rparr>) \<and>
   lookup RULES business_registration = Inr business_rules \<and>
   (0 :: nat) < length (fields_required business_rules) \<and>
   (\<exists>rs. check_business_registration [32, 49345, 54840, 32] = Inr rs \<and> passed (rs ! 0))"
proof -
  have a: "(business_registration, check_business_registration)
     \<in> set (DOC_CHECKERS \<lparr>year = 2024, month = 6, day = 15\<rparr>)"
    by (simp add: DOC_CHECKERS_def)
  have c: "(0 :: nat) < length (fields_required business_rules)"
    by (simp add: length_fields)
  have f: "fields_required business_rules ! 0 = [49345, 54840]"
    by (simp add: business_rules_def)
  have "[32, 49345, 54840, 32] = [32] @ [49345, 54840] @ [32 :: nat]" by simp
  then have e: "\<exists>pre post. [32, 49345, 54840, 32] = pre @ [49345, 54840] @ (post :: nat list)"
    by blast
  show ?thesis
    using keyword_checks_substring [OF a lookup_business c, of "[32, 49345, 54840, 32]"] a c e
    by (auto simp: f lookup_business)
qed

subsection \<open>Evaluating the date patterns on a given text\<close>

lemma find_dates_unfold:
  "find_dates text =
     dates_in pattern_ymd text @ dates_in pattern_mdy text @ dates_in pattern_long text"
  by (simp add: find_dates_def DATE_PATTERNS_def)

lemma rep_numeral: "rep (numeral k) r = Seq r (rep (pred_numeral k) r)"
  by (simp add: numeral_eq_Suc)

lemmas eval_defs = find_dates_unfold rep_numeral dates_in_def pattern_ymd_def pattern_mdy_def
  pattern_long_def year_20xx_def month_2d_def day_2d_def sep_def match_at_def
  dates_of_match_def date_of_match_def ymd_def py_int_def py_len_def digits_value_def
  decimal_value_def is_decimal_def decimal_blocks_def is_space_def mk_date_def valid_date_def
  days_in_month_def is_leap_def py_in_def year_mark_def Let_def ebind_def

section \<open>The disinfection-certificate checker\<close>

lemma compliance_projr:
  "name (projr (compliance_check today l)) = compliance_name"
  "passed (projr (compliance_check today l)) =
     (month_diff today l
        \<le> fadd (float_of_int (if month l \<in> {4, 5, 6, 7, 8, 9} then 2 else 3))
                (round_double (1 / 10)))"
  using compliance_check_eq [of today l] by auto

lemma future_check_simps:
  "name (future_check today text) = future_name"
  "passed (future_check today text) = (\<forall>d\<in>set (find_dates text). \<not> date_lt today d)"
  by (simp_all add: future_check_def Let_def list_ex_iff)

lemma keyword_names_differ:
  "keyword_label @ kw \<noteq> compliance_name"
  by (simp add: keyword_label_def compliance_name_def)

lemma other_names_differ:
  "date_found_name \<noteq> compliance_name" "future_name \<noteq> compliance_name"
  by (simp_all add: date_found_name_def future_name_def compliance_name_def)

text \<open>
  Claim C4.  The future-date check is the last result of the disinfection-certificate
  checker, and it passes exactly when no date of \<open>find_dates text\<close>, unfiltered, is
  strictly after today; so it passes when no date is extracted at all.
\<close>

theorem future_check_iff:
  "\<exists>rs. check_disinfection_certificate today text = Inr rs \<and> rs \<noteq> [] \<and>
        name (last rs) = future_name \<and>
        passed (last rs) = (\<forall>d\<in>set (find_dates text). \<not> date_lt today d) \<and>
        (find_dates text = [] \<longrightarrow> passed (last rs))"
proof -
  obtain l where "latest_of today text = Inr l"
    using latest_of_total [of today "text"] by blast
  then show ?thesis
    by (simp add: check_disinfection_shape future_check_simps)
qed

lemma find_dates_future_example:
  "find_dates [50, 48, 57, 57, 45, 48, 49, 45, 48, 49] = [\<lparr>year = 2099, month = 1, day = 1\<rparr>]"
  by (simp add: eval_defs)

theorem future_check_iff_witness:
  "\<exists>rs. check_disinfection_certificate \<lparr>year = 2024, month = 6, day = 15\<rparr>
          [50, 48, 57, 57, 45, 48, 49, 45, 48, 49] = Inr rs \<and>
        name (last rs) = future_name \<and> \<not> passed (last rs)"
  using future_check_iff [of "\<lparr>year = 2024, month = 6, day = 15\<rparr>"
      "[50, 48, 57, 57, 45, 48, 49, 45, 48, 49]"]
  by (auto simp: find_dates_future_example date_lt_def)

text \<open>
  Claim C5.  When no extracted date is on or before today, the checker returns seven
  results: the five keyword checks, the date-found check with \<open>passed = False\<close>, and
  the future-date check.  No result carries the name of the compliance check.
\<close>

theorem no_latest_omits_compliance:
  assumes "\<forall>d\<in>set (find_dates text). \<not> date_le d today"
  shows "\<exists>rs. check_disinfection_certificate today text = Inr rs \<and> length rs = 7 \<and>
           name (rs ! 5) = date_found_name \<and> \<not> passed (rs ! 5) \<and>
           compliance_name \<notin> name ` set rs \<and>
           rs ! 6 = future_check today text \<and> name (rs ! 6) = future_name"
proof -
  have l: "latest_of today text = Inr None"
    using assms by (rule latest_of_none)
  have "compliance_name \<notin> name ` keyword_check text ` set (fields_required disinfection_rules)"
    using keyword_names_differ [symmetric] by (auto simp: keyword_check_simps)
  then show ?thesis
    using other_names_differ
    by (simp add: check_disinfection_shape [OF l] length_fields nth_append future_check_simps
        image_Un)
qed

theorem no_latest_omits_compliance_witness:
  "find_dates [49548, 46021] = [] \<and>
   (\<exists>rs. check_disinfection_certificate \<lparr>year = 2024, month = 6, day = 15\<rparr> [49548, 46021]
            = Inr rs \<and> length rs = 7 \<and> \<not> passed (rs ! 5) \<and> name (rs ! 6) = future_name)"
proof -
  have fd: "find_dates [49548, 46021] = []" by (simp add: eval_defs)
  then have h: "\<forall>d\<in>set (find_dates [49548, 46021]).
      \<not> date_le d \<lparr>year = 2024, month = 6, day = 15\<rparr>" by simp
  show ?thesis
    using no_latest_omits_compliance [OF h] fd by blast
qed

section \<open>Order of the results\<close>

text \<open>
  Claim C9.  The names of the results come in the order of the rules.  The
  business-registration checker gives the keyword checks in the order of
  \<open>fields_required\<close>, then the format check.  The disinfection-certificate checker gives
  the keyword checks in the order of \<open>fields_required\<close>, then the date-found check, then
  the compliance check if some extracted date is on or before today, then the
  future-date check.
\<close>

theorem results_in_rule_order:
  "(\<exists>rs. check_business_registration text = Inr rs \<and>
         map name rs = map ((@) keyword_label) (fields_required business_rules) @ [format_name]) \<and>
   (\<exists>rs. check_disinfection_certificate today text = Inr rs \<and>
         map name rs = map ((@) keyword_label) (fields_required disinfection_rules) @
                       [date_found_name] @
                       (if \<exists>d\<in>set (find_dates text). date_le d today
                        then [compliance_name] else []) @
                       [future_name])"
proof -
  obtain l where l: "latest_of today text = Inr l"
    and c: "case l of
          None \<Rightarrow> \<forall>d\<in>set (find_dates text). \<not> date_le d today
        | Some m \<Rightarrow> m \<in> set (find_dates text) \<and> date_le m today \<and>
                    (\<forall>d\<in>set (find_dates text). date_le d today \<longrightarrow> date_le d m)"
    using latest_of_total [of today "text"] by blast
  have kw: "map (name \<circ> keyword_check text) ks = map ((@) keyword_label) ks" for ks
    by (simp add: keyword_check_simps)
  have "(\<exists>d\<in>set (find_dates text). date_le d today) = (l \<noteq> None)"
    using c by (cases l) auto
  then show ?thesis
    by (cases l)
      (simp_all add: check_business_registration_eq check_disinfection_shape [OF l] kw
        compliance_projr future_check_simps)
qed

lemma find_dates_long_example:
  "find_dates [50, 48, 50, 52, 45380, 32, 53, 50900, 32, 49, 51068] =
     [\<lparr>year = 2024, month = 5, day = 1\<rparr>]"
  by (simp add: eval_defs)

theorem results_in_rule_order_witness:
  "\<exists>rs. check_disinfection_certificate \<lparr>year = 2024, month = 6, day = 15\<rparr>
          [50, 48, 50, 52, 45380, 32, 53, 50900, 32, 49, 51068] = Inr rs \<and>
        drop 5 (map name rs) = [date_found_name, compliance_name, future_name]"
  using results_in_rule_order [of "[50, 48, 50, 52, 45380, 32, 53, 50900, 32, 49, 51068]"
      "\<lparr>year = 2024, month = 6, day = 15\<rparr>"]
  by (auto simp: find_dates_long_example date_le_def length_fields)

section \<open>Dispatch\<close>

text \<open>
  Claim C8.  Looking a document type up in \<open>DOC_CHECKERS\<close> gives the checker registered
  under that key, and fails with the error of a missing key (Python's KeyError) for every
  string that is not a registered key.
\<close>

theorem dispatch_registered:
  "(\<forall>(k, c)\<in>set (DOC_CHECKERS today). dispatch today k = Inr c) \<and>
   (doc_type \<notin> fst ` set (DOC_CHECKERS today) \<longrightarrow> dispatch today doc_type = Inl KeyError)"
  by (auto simp: dispatch_def lookup_def DOC_CHECKERS_def business_registration_def
      disinfection_certificate_def)

theorem dispatch_registered_witness:
  "dispatch \<lparr>year = 2024, month = 6, day = 15\<rparr> business_registration
     = Inr check_business_registration \<and>
   dispatch \<lparr>year = 2024, month = 6, day = 15\<rparr> disinfection_certificate
     = Inr (check_disinfection_certificate \<lparr>year = 2024, month = 6, day = 15\<rparr>) \<and>
   [88] \<notin> fst ` set (DOC_CHECKERS \<lparr>year = 2024, month = 6, day = 15\<rparr>) \<and>
   dispatch \<lparr>year = 2024, month = 6, day = 15\<rparr> [88] = Inl KeyError"
proof -
  have n: "[88] \<notin> fst ` set (DOC_CHECKERS \<lparr>year = 2024, month = 6, day = 15\<rparr>)"
    by (simp add: DOC_CHECKERS_def business_registration_def disinfection_certificate_def)
  show ?thesis
    using dispatch_registered [of "\<lparr>year = 2024, month = 6, day = 15\<rparr>" "[88]"] n
    by (simp add: DOC_CHECKERS_def)
qed

section \<open>Seasonal compliance\<close>

lemma check_disinfection_with_latest:
  assumes "latest_of today text = Inr (Some l)"
  shows "\<exists>rs. check_disinfection_certificate today text = Inr rs \<and> length rs = 8 \<and>
           name (rs ! 5) = date_found_name \<and> passed (rs ! 5) \<and>
           name (rs ! 6) = compliance_name \<and>
           passed (rs ! 6) =
             (month_diff today l
                \<le> fadd (float_of_int (if month l \<in> {4, 5, 6, 7, 8, 9} then 2 else 3))
                        (round_double (1 / 10)))"
  by (simp add: check_disinfection_shape [OF assms] length_fields nth_append compliance_projr)

text \<open>
  Claim C1.  When \<open>l\<close> is the latest extracted date on or before today, the seventh
  result of the disinfection-certificate checker is the compliance check, and it passes
  exactly when \<open>(today.year - l.year) * 12 + (today.month - l.month) +
  (today.day - l.day) / 30.0 \<le> threshold + 0.1\<close>, computed in floating point as the
  source does, with threshold 2 when the month of \<open>l\<close> is one of 4 to 9 and 3 otherwise.
\<close>

theorem compliance_passed_iff:
  assumes "l \<in> set (find_dates text)" and "date_le l today"
    and "\<forall>d\<in>set (find_dates text). date_le d today \<longrightarrow> date_le d l"
  shows "\<exists>rs. check_disinfection_certificate today text = Inr rs \<and> length rs = 8 \<and>
           name (rs ! 6) = compliance_name \<and>
           passed (rs ! 6) =
             (fadd (float_of_int ((year today - year l) * 12 + (month today - month l)))
                   (fdiv (float_of_int (day today - day l)) 30)
                \<le> fadd (float_of_int (if month l \<in> {4, 5, 6, 7, 8, 9} then 2 else 3))
                        (round_double (1 / 10)))"
proof -
  have "latest_of today text = Inr (Some l)"
    using assms by (rule latest_of_some)
  from check_disinfection_with_latest [OF this] show ?thesis
    unfolding month_diff_def by blast
qed

lemma find_dates_winter_example:
  "find_dates [50, 48, 50, 52, 45, 48, 49, 45, 51, 48] =
     [\<lparr>year = 2024, month = 1, day = 30\<rparr>]"
  by (simp add: eval_defs)

lemma boundary_winter_values:
  "fadd (float_of_int 4) (fdiv (float_of_int (- 27)) 30)
     = 6980579422424269 / 2251799813685248"
  "fadd (float_of_int 3) (round_double (1 / 10)) = 6980579422424269 / 2251799813685248"
  by code_simp+

theorem compliance_passed_iff_witness:
  "\<lparr>year = 2024, month = 1, day = 30\<rparr>
     \<in> set (find_dates [50, 48, 50, 52, 45, 48, 49, 45, 51, 48]) \<and>
   date_le \<lparr>year = 2024, month = 1, day = 30\<rparr> \<lparr>year = 2024, month = 5, day = 3\<rparr> \<and>
   find_dates [50, 48, 50, 52, 45, 48, 49, 45, 51, 48] = [\<lparr>year = 2024, month = 1, day = 30\<rparr>] \<and>
   (\<exists>rs. check_disinfection_certificate \<lparr>year = 2024, month = 5, day = 3\<rparr>
           [50, 48, 50, 52, 45, 48, 49, 45, 51, 48] = Inr rs \<and>
         name (rs ! 6) = compliance_name \<and> passed (rs ! 6))"
proof -
  let ?t = "[50, 48, 50, 52, 45, 48, 49, 45, 51, 48] :: ustring"
  let ?l = "\<lparr>year = 2024, month = 1, day = 30\<rparr>"
  let ?today = "\<lparr>year = 2024, month = 5, day = 3\<rparr>"
  have a: "?l \<in> set (find_dates ?t)" by (simp add: find_dates_winter_example)
  have b: "date_le ?l ?today" by (simp add: date_le_def)
  have c: "\<forall>d\<in>set (find_dates ?t). date_le d ?today \<longrightarrow> date_le d ?l"
    by (simp add: find_dates_winter_example date_le_def)
  show ?thesis
    using compliance_passed_iff [OF a b c] a b find_dates_winter_example
    by (auto simp: boundary_winter_values)
qed

section \<open>The scenario of 1 May 2024\<close>

lemma scenario_values:
  "month_diff \<lparr>year = 2024, month = 6, day = 15\<rparr> \<lparr>year = 2024, month = 5, day = 1\<rparr>
     = 825659931684591 / 562949953421312"
  "month_diff \<lparr>year = 2024, month = 9, day = 1\<rparr> \<lparr>year = 2024, month = 5, day = 1\<rparr> = 4"
  "fadd (float_of_int 2) (round_double (1 / 10)) = 4728779608739021 / 2251799813685248"
  by code_simp+

text \<open>
  Claim C6.  When the only date extracted from the text is 1 May 2024 (as for a text whose
  only date-like substring is the long form of that date), then with today = 2024-06-15
  the latest date is 2024-05-01, the elapsed months are the double nearest to
  \<open>1 + 14 / 30\<close>, which is 1.47 to two decimals, and the compliance check passes; with
  today = 2024-09-01 the elapsed months are exactly 4 and the compliance check fails.
\<close>

theorem scenario_may_first:
  assumes "find_dates text = [\<lparr>year = 2024, month = 5, day = 1\<rparr>]"
  shows "latest_of \<lparr>year = 2024, month = 6, day = 15\<rparr> text
           = Inr (Some \<lparr>year = 2024, month = 5, day = 1\<rparr>) \<and>
         \<bar>month_diff \<lparr>year = 2024, month = 6, day = 15\<rparr> \<lparr>year = 2024, month = 5, day = 1\<rparr>
            - 147 / 100\<bar> < 1 / 200 \<and>
         (\<exists>rs. check_disinfection_certificate \<lparr>year = 2024, month = 6, day = 15\<rparr> text = Inr rs \<and>
               name (rs ! 6) = compliance_name \<and> passed (rs ! 6)) \<and>
         latest_of \<lparr>year = 2024, month = 9, day = 1\<rparr> text
           = Inr (Some \<lparr>year = 2024, month = 5, day = 1\<rparr>) \<and>
         month_diff \<lparr>year = 2024, month = 9, day = 1\<rparr> \<lparr>year = 2024, month = 5, day = 1\<rparr> = 4 \<and>
         (\<exists>rs. check_disinfection_certificate \<lparr>year = 2024, month = 9, day = 1\<rparr> text = Inr rs \<and>
               name (rs ! 6) = compliance_name \<and> \<not> passed (rs ! 6))"
proof -
  let ?l = "\<lparr>year = 2024, month = 5, day = 1\<rparr>"
  have l1: "latest_of \<lparr>year = 2024, month = 6, day = 15\<rparr> text = Inr (Some ?l)"
    by (rule latest_of_some) (simp_all add: assms date_le_def)
  have l2: "latest_of \<lparr>year = 2024, month = 9, day = 1\<rparr> text = Inr (Some ?l)"
    by (rule latest_of_some) (simp_all add: assms date_le_def)
  show ?thesis
    using check_disinfection_with_latest [OF l1] check_disinfection_with_latest [OF l2] l1 l2
    by (auto simp: scenario_values)
qed

theorem scenario_may_first_witness:
  "find_dates [49548, 46021, 32, 50, 48, 50, 52, 45380, 32, 53, 50900, 32, 49, 51068]
     = [\<lparr>year = 2024, month = 5, day = 1\<rparr>] \<and>
   (\<exists>rs. check_disinfection_certificate \<lparr>year = 2024, month = 6, day = 15\<rparr>
           [49548, 46021, 32, 50, 48, 50, 52, 45380, 32, 53, 50900, 32, 49, 51068] = Inr rs \<and>
         name (rs ! 6) = compliance_name \<and> passed (rs ! 6)) \<and>
   (\<exists>rs. check_disinfection_certificate \<lparr>year = 2024, month = 9, day = 1\<rparr>
           [49548, 46021, 32, 50, 48, 50, 52, 45380, 32, 53, 50900, 32, 49, 51068] = Inr rs \<and>
         name (rs ! 6) = compliance_name \<and> \<not> passed (rs ! 6))"
proof -
  have fd: "find_dates [49548, 46021, 32, 50, 48, 50, 52, 45380, 32, 53, 50900, 32, 49, 51068]
     = [\<lparr>year = 2024, month = 5, day = 1\<rparr>]"
    by (simp add: eval_defs)
  show ?thesis
    using scenario_may_first [OF fd] fd by blast
qed

section \<open>The matcher and the language of a pattern\<close>

lemma takeWhile_length_iff:
  "n \<le> length (takeWhile P s) \<longleftrightarrow> n \<le> length s \<and> list_all P (take n s)"
proof (induction s arbitrary: n)
  case Nil
  then show ?case by simp
next
  case (Cons x xs)
  then show ?case by (cases n) auto
qed

lemma set_countdown: "set (countdown n) = {k. k \<le> n}"
  by (induction n) auto

lemma seq_split:
  "(n \<le> length s \<and> (\<exists>u v. take n s = u @ v \<and> u \<in> A \<and> v \<in> B)) \<longleftrightarrow>
   (\<exists>n1 k. n1 \<le> length s \<and> take n1 s \<in> A \<and> k \<le> length s - n1 \<and>
            take k (drop n1 s) \<in> B \<and> n = n1 + k)"
proof
  assume l: "n \<le> length s \<and> (\<exists>u v. take n s = u @ v \<and> u \<in> A \<and> v \<in> B)"
  then obtain u v where uv: "take n s = u @ v" "u \<in> A" "v \<in> B" by blast
  from l have n: "n \<le> length s" by simp
  have len: "length u + length v = n"
    using arg_cong [OF uv(1), of length] n by simp
  have u: "take (length u) s = u"
    using arg_cong [OF uv(1), of "take (length u)"] len by (simp add: min_def)
  from len have nv: "n - length u = length v" by simp
  have v: "take (length v) (drop (length u) s) = v"
    using arg_cong [OF uv(1), of "drop (length u)"] by (simp add: drop_take nv)
  show "\<exists>n1 k. n1 \<le> length s \<and> take n1 s \<in> A \<and> k \<le> length s - n1 \<and>
            take k (drop n1 s) \<in> B \<and> n = n1 + k"
    using u v uv(2,3) len n by (intro exI [of _ "length u"] exI [of _ "length v"]) auto
next
  assume "\<exists>n1 k. n1 \<le> length s \<and> take n1 s \<in> A \<and> k \<le> length s - n1 \<and>
            take k (drop n1 s) \<in> B \<and> n = n1 + k"
  then obtain n1 k where h: "n1 \<le> length s" "take n1 s \<in> A" "k \<le> length s - n1"
    "take k (drop n1 s) \<in> B" "n = n1 + k" by blast
  have "take n s = take n1 s @ take k (drop n1 s)"
    using h(5) by (simp add: take_add)
  with h show "n \<le> length s \<and> (\<exists>u v. take n s = u @ v \<and> u \<in> A \<and> v \<in> B)"
    by auto
qed

lemma rmatch_lengths:
  "fst ` set (rmatch r s cs) = {n. n \<le> length s \<and> take n s \<in> lang r}"
  and rmatch_then_lengths:
  "fst ` set (rmatch_then r s ps) =
     {n. \<exists>p\<in>set ps. \<exists>k. k \<le> length s - fst p \<and> take k (drop (fst p) s) \<in> lang r \<and>
                         n = fst p + k}"
proof (induction r s cs and r s ps rule: rmatch_rmatch_then.induct)
  case (1 s cs)
  then show ?case by auto
next
  case (2 c s cs)
  show ?case
  proof (cases s)
    case Nil
    then show ?thesis by auto
  next
    case (Cons x xs)
    have "take n (x # xs) = [y] \<longleftrightarrow> n \<noteq> 0 \<and> y = x \<and> (n = 1 \<or> xs = [])" for n y
      by (cases n) auto
    then show ?thesis using Cons
      by (auto simp: image_iff)
  qed
next
  case (3 r1 r2 s cs)
  have "fst ` set (rmatch (Seq r1 r2) s cs) =
     {n. \<exists>n1\<in>fst ` set (rmatch r1 s cs). \<exists>k. k \<le> length s - n1 \<and>
            take k (drop n1 s) \<in> lang r2 \<and> n = n1 + k}"
    using 3(2) by auto
  also have "\<dots> = {n. \<exists>n1 k. n1 \<le> length s \<and> take n1 s \<in> lang r1 \<and> k \<le> length s - n1 \<and>
            take k (drop n1 s) \<in> lang r2 \<and> n = n1 + k}"
    unfolding 3(1) by auto
  also have "\<dots> = {n. n \<le> length s \<and> take n s \<in> lang (Seq r1 r2)}"
    using seq_split [of _ s "lang r1" "lang r2"] by simp
  finally show ?case .
next
  case (4 r1 r2 s cs)
  then show ?case by (auto simp: image_Un)
next
  case (5 r s cs)
  then show ?case by (auto simp: image_Un)
next
  case (6 c s cs)
  show ?case
    by (auto simp: image_image set_countdown takeWhile_length_iff)
next
  case (7 k r s cs)
  then show ?case by (simp add: image_image)
next
  case (8 r s)
  then show ?case by simp
next
  case (9 r s p ps)
  have "fst ` set (map (\<lambda>q. (fst p + fst q, snd q)) (rmatch r (drop (fst p) s) (snd p))) =
     (\<lambda>k. fst p + k) ` fst ` set (rmatch r (drop (fst p) s) (snd p))"
    by (simp add: image_image)
  also have "\<dots> = {n. \<exists>k. k \<le> length s - fst p \<and> take k (drop (fst p) s) \<in> lang r \<and>
                         n = fst p + k}"
    unfolding 9(1) by auto
  finally show ?case using 9(2) by (auto simp: image_Un)
qed

lemma match_at_None_iff:
  "match_at r s = None \<longleftrightarrow> (\<forall>n\<le>length s. take n s \<notin> lang r)"
proof -
  have "match_at r s = None \<longleftrightarrow> fst ` set (rmatch r s []) = {}"
    by (auto simp: match_at_def split: list.splits)
  then show ?thesis unfolding rmatch_lengths by auto
qed

lemma match_at_SomeD:
  assumes "match_at r s = Some (n, m)"
  shows "n \<le> length s \<and> take n s \<in> lang r \<and> group0 m = take n s"
proof -
  from assms obtain cs rest where r: "rmatch r s [] = (n, cs) # rest" and "group0 m = take n s"
    by (auto simp: match_at_def split: list.splits)
  then have "n \<in> fst ` set (rmatch r s [])" by (simp add: image_iff)
  then show ?thesis using \<open>group0 m = take n s\<close> unfolding rmatch_lengths by simp
qed

section \<open>Searching a text\<close>

lemma search_None_iff:
  "search r text = None \<longleftrightarrow> (\<forall>pre w post. text = pre @ w @ post \<longrightarrow> w \<notin> lang r)"
proof (induction "text")
  case Nil
  have "search r [] = None \<longleftrightarrow> match_at r [] = None" by simp
  then show ?case by (simp add: match_at_None_iff)
next
  case (Cons x xs)
  show ?case
  proof (cases "match_at r (x # xs)")
    case None
    then have no: "\<forall>n\<le>length (x # xs). take n (x # xs) \<notin> lang r"
      by (simp only: match_at_None_iff)
    have s: "search r (x # xs) = search r xs" using None by simp
    show ?thesis
    proof
      assume "search r (x # xs) = None"
      then have ih: "\<forall>pre w post. xs = pre @ w @ post \<longrightarrow> w \<notin> lang r"
        using s Cons.IH by simp
      show "\<forall>pre w post. x # xs = pre @ w @ post \<longrightarrow> w \<notin> lang r"
      proof (intro allI impI)
        fix pre w post assume e: "x # xs = pre @ w @ post"
        show "w \<notin> lang r"
        proof (cases pre)
          case Nil
          then have "take (length w) (x # xs) = w" "length w \<le> length (x # xs)"
            using e by (simp_all add: arg_cong [OF e, of length])
          then show ?thesis using no by metis
        next
          case (Cons y pre')
          then have "xs = pre' @ w @ post" using e by simp
          then show ?thesis using ih by blast
        qed
      qed
    next
      assume a: "\<forall>pre w post. x # xs = pre @ w @ post \<longrightarrow> w \<notin> lang r"
      have "\<forall>pre w post. xs = pre @ w @ post \<longrightarrow> w \<notin> lang r"
      proof (intro allI impI)
        fix pre w post assume "xs = pre @ w @ post"
        then have "x # xs = (x # pre) @ w @ post" by simp
        then show "w \<notin> lang r" using a by blast
      qed
      then show "search r (x # xs) = None" using s Cons.IH by simp
    qed
  next
    case (Some a)
    obtain n m where a: "a = (n, m)" by (cases a)
    from match_at_SomeD [OF Some [unfolded a]]
    have "take n (x # xs) \<in> lang r" by simp
    moreover have "x # xs = [] @ take n (x # xs) @ drop n (x # xs)" by simp
    ultimately have "\<exists>pre w post. x # xs = pre @ w @ post \<and> w \<in> lang r" by blast
    then show ?thesis using Some a by auto
  qed
qed

lemma search_SomeD:
  assumes "search r text = Some m"
  shows "\<exists>pre post. text = pre @ group0 m @ post \<and> group0 m \<in> lang r \<and>
           (\<forall>pre' w' post'. text = pre' @ w' @ post' \<and> w' \<in> lang r \<longrightarrow>
                             length pre \<le> length pre')"
  using assms
proof (induction "text")
  case Nil
  then obtain n where "match_at r [] = Some (n, m)" by auto
  from match_at_SomeD [OF this] have "group0 m = []" "[] \<in> lang r" by simp_all
  then show ?case by simp
next
  case (Cons x xs)
  show ?case
  proof (cases "match_at r (x # xs)")
    case None
    then have no: "\<forall>n\<le>length (x # xs). take n (x # xs) \<notin> lang r"
      by (simp only: match_at_None_iff)
    from None Cons.prems have "search r xs = Some m" by simp
    from Cons.IH [OF this] obtain pre post where
      ih: "xs = pre @ group0 m @ post" "group0 m \<in> lang r"
        "\<forall>pre' w' post'. xs = pre' @ w' @ post' \<and> w' \<in> lang r \<longrightarrow> length pre \<le> length pre'"
      by blast
    have "\<forall>pre' w' post'. x # xs = pre' @ w' @ post' \<and> w' \<in> lang r \<longrightarrow>
            length (x # pre) \<le> length pre'"
    proof (intro allI impI)
      fix pre' w' post' assume e: "x # xs = pre' @ w' @ post' \<and> w' \<in> lang r"
      show "length (x # pre) \<le> length pre'"
      proof (cases pre')
        case Nil
        then have "take (length w') (x # xs) = w'" "length w' \<le> length (x # xs)"
          using e by (simp_all add: arg_cong [of "x # xs" "w' @ post'" length])
        then show ?thesis using no e by metis
      next
        case (Cons y p)
        then have "xs = p @ w' @ post'" using e by simp
        then have "length pre \<le> length p" using ih(3) e by blast
        then show ?thesis using Cons by simp
      qed
    qed
    moreover have "x # xs = (x # pre) @ group0 m @ post" using ih(1) by simp
    ultimately show ?thesis using ih(2) by blast
  next
    case (Some a)
    obtain n m' where a: "a = (n, m')" by (cases a)
    with Some Cons.prems have "m' = m" by simp
    from match_at_SomeD [OF Some [unfolded a]] this
    have "take n (x # xs) \<in> lang r" "group0 m = take n (x # xs)" by simp_all
    moreover have "x # xs = [] @ take n (x # xs) @ drop n (x # xs)" by simp
    ultimately show ?thesis by (metis le0 list.size(3))
  qed
qed

end
